theory Spec2Isabelle
  imports Main "HOL-Library.Monad_Syntax"
begin

section \<open>Python values used by \<^verbatim>\<open>burp_to_xml.py\<close>\<close>

text \<open>
  A \<^verbatim>\<open>bytes\<close> object is a list of 8-bit characters. A \<^verbatim>\<open>str\<close> obtained by
  \<^verbatim>\<open>decode("latin-1", "replace")\<close> has one code point below 256 for every byte, so it is a
  list of 8-bit characters as well; \<^verbatim>\<open>str.upper()\<close> leaves that range and returns a list
  of code points. Offsets are Python integers: the source adds parsed (possibly negative)
  lengths to them, so they are \<^typ>\<open>int\<close>.
\<close>

type_synonym bytes = "char list"
type_synonym str = "char list"

abbreviation CR :: char where "CR \<equiv> CHR 0x0D"
abbreviation LF :: char where "LF \<equiv> CHR 0x0A"
abbreviation CRLF :: bytes where "CRLF \<equiv> [CR, LF]"

subsection \<open>Slices and search\<close>

text \<open>How Python turns a slice bound into a position of a sequence of length \<open>n\<close>.\<close>

definition slice_index :: "int \<Rightarrow> int \<Rightarrow> nat" where
  "slice_index n i = (if i < 0 then nat (max 0 (i + n)) else nat (min i n))"

text \<open>\<^verbatim>\<open>xs[i:j]\<close>, \<^verbatim>\<open>xs[i:]\<close> and \<^verbatim>\<open>xs[:j]\<close>.\<close>

definition py_slice :: "'a list \<Rightarrow> int \<Rightarrow> int \<Rightarrow> 'a list" where
  "py_slice xs i j =
     (let n = int (length xs); a = slice_index n i; b = slice_index n j
      in take (b - a) (drop a xs))"

definition py_slice_from :: "'a list \<Rightarrow> int \<Rightarrow> 'a list" where
  "py_slice_from xs i = drop (slice_index (int (length xs)) i) xs"

definition py_slice_to :: "'a list \<Rightarrow> int \<Rightarrow> 'a list" where
  "py_slice_to xs j = take (slice_index (int (length xs)) j) xs"

text \<open>\<^verbatim>\<open>s.startswith(p)\<close>.\<close>

fun startswith :: "'a list \<Rightarrow> 'a list \<Rightarrow> bool" where
  "startswith s [] = True"
| "startswith [] (p # ps) = False"
| "startswith (c # cs) (p # ps) = (c = p \<and> startswith cs ps)"

text \<open>The lowest offset \<open>\<ge> p\<close> at which \<open>sub\<close> occurs, where \<open>s\<close> is the buffer from \<open>p\<close> on.\<close>

primrec find_at :: "bytes \<Rightarrow> bytes \<Rightarrow> nat \<Rightarrow> int" where
  "find_at sub [] p = (if sub = [] then int p else - 1)"
| "find_at sub (c # cs) p = (if startswith (c # cs) sub then int p else find_at sub cs (Suc p))"

text \<open>\<^verbatim>\<open>buffer.find(sub, start)\<close>: \<open>-1\<close> when there is no occurrence.\<close>

definition py_find :: "bytes \<Rightarrow> bytes \<Rightarrow> int \<Rightarrow> int" where
  "py_find buffer sub start =
     (let n = int (length buffer); a = slice_index n start
      in if start > n then - 1 else find_at sub (drop a buffer) a)"

text \<open>\<^verbatim>\<open>sub in s\<close> for strings.\<close>

primrec contains :: "'a list \<Rightarrow> 'a list \<Rightarrow> bool" where
  "contains [] sub = (sub = [])"
| "contains (c # cs) sub = (startswith (c # cs) sub \<or> contains cs sub)"

subsection \<open>Whitespace, case and lines\<close>

text \<open>What \<^verbatim>\<open>bytes.strip()\<close>, \<^verbatim>\<open>\s\<close> of a bytes pattern and \<^verbatim>\<open>int(bytes, base)\<close> take as
  whitespace, and what \<^verbatim>\<open>str.strip()\<close> and \<^verbatim>\<open>int(str)\<close> take as whitespace below 256.\<close>

definition bytes_space :: "char \<Rightarrow> bool" where
  "bytes_space c = (c \<in> set [CHR 0x09, LF, CHR 0x0B, CHR 0x0C, CR, CHR 0x20])"

definition str_space :: "char \<Rightarrow> bool" where
  "str_space c = (c \<in> set [CHR 0x09, LF, CHR 0x0B, CHR 0x0C, CR, CHR 0x1C, CHR 0x1D,
     CHR 0x1E, CHR 0x1F, CHR 0x20, CHR 0x85, CHR 0xA0])"

text \<open>What \<^verbatim>\<open>int(str)\<close> skips around the digits: the ASCII whitespace, and \<^verbatim>\<open>\x85\<close> and
  \<^verbatim>\<open>\xa0\<close>, but not the separators \<^verbatim>\<open>\x1c\<close> to \<^verbatim>\<open>\x1f\<close> that \<^verbatim>\<open>str.strip()\<close> removes.\<close>

definition int_space :: "char \<Rightarrow> bool" where
  "int_space c = (c \<in> set [CHR 0x09, LF, CHR 0x0B, CHR 0x0C, CR, CHR 0x20, CHR 0x85, CHR 0xA0])"

definition strip :: "(char \<Rightarrow> bool) \<Rightarrow> char list \<Rightarrow> char list" where
  "strip sp s = rev (dropWhile sp (rev (dropWhile sp s)))"

definition code :: "char \<Rightarrow> nat" where
  "code c = of_char c"

definition ascii_upper :: "char \<Rightarrow> bool" where
  "ascii_upper c = (0x41 \<le> code c \<and> code c \<le> 0x5A)"

definition ascii_lower :: "char \<Rightarrow> bool" where
  "ascii_lower c = (0x61 \<le> code c \<and> code c \<le> 0x7A)"

text \<open>The letters that \<^verbatim>\<open>str.lower()\<close> changes among the code points below 256, and
  what it makes of them: the ASCII capitals and the Latin-1 capitals (0xC0..0xDE without
  the multiplication sign 0xD7) move up by 32.\<close>

definition ascii_capitals :: "char list" where
  "ascii_capitals = ''ABCDEFGHIJKLMNOPQRSTUVWXYZ''"

definition ascii_smalls :: "char list" where
  "ascii_smalls = ''abcdefghijklmnopqrstuvwxyz''"

definition latin1_capitals :: "char list" where
  "latin1_capitals =
    [
     CHR 0xC0, CHR 0xC1, CHR 0xC2, CHR 0xC3, CHR 0xC4, CHR 0xC5, CHR 0xC6, CHR 0xC7, CHR 0xC8,
     CHR 0xC9, CHR 0xCA, CHR 0xCB, CHR 0xCC, CHR 0xCD, CHR 0xCE, CHR 0xCF, CHR 0xD0, CHR 0xD1,
     CHR 0xD2, CHR 0xD3, CHR 0xD4, CHR 0xD5, CHR 0xD6, CHR 0xD8, CHR 0xD9, CHR 0xDA, CHR 0xDB,
     CHR 0xDC, CHR 0xDD, CHR 0xDE]"

definition latin1_smalls :: "char list" where
  "latin1_smalls =
    [
     CHR 0xE0, CHR 0xE1, CHR 0xE2, CHR 0xE3, CHR 0xE4, CHR 0xE5, CHR 0xE6, CHR 0xE7, CHR 0xE8,
     CHR 0xE9, CHR 0xEA, CHR 0xEB, CHR 0xEC, CHR 0xED, CHR 0xEE, CHR 0xEF, CHR 0xF0, CHR 0xF1,
     CHR 0xF2, CHR 0xF3, CHR 0xF4, CHR 0xF5, CHR 0xF6, CHR 0xF8, CHR 0xF9, CHR 0xFA, CHR 0xFB,
     CHR 0xFC, CHR 0xFD, CHR 0xFE]"

definition lower_char :: "char \<Rightarrow> char" where
  "lower_char c =
     (case map_of (zip (ascii_capitals @ latin1_capitals) (ascii_smalls @ latin1_smalls)) c of
        None \<Rightarrow> c
      | Some d \<Rightarrow> d)"

definition lower :: "str \<Rightarrow> str" where
  "lower s = map lower_char s"

text \<open>\<^verbatim>\<open>str.upper()\<close> on code points below 256. The result is a list of code points:
  the sharp s becomes two letters, and the micro sign and the y with diaeresis leave Latin-1.\<close>

definition upper_char :: "char \<Rightarrow> nat list" where
  "upper_char c =
     (if ascii_lower c \<or> (0xE0 \<le> code c \<and> code c \<le> 0xFE \<and> code c \<noteq> 0xF7)
      then [code c - 32]
      else if code c = 0xDF then [0x53, 0x53]
      else if code c = 0xB5 then [0x39C]
      else if code c = 0xFF then [0x178]
      else [code c])"

definition upper :: "str \<Rightarrow> nat list" where
  "upper s = concat (map upper_char s)"

text \<open>\<^verbatim>\<open>bytes.splitlines()\<close>: lines end at \<^verbatim>\<open>\n\<close>, \<^verbatim>\<open>\r\<close> or \<^verbatim>\<open>\r\n\<close>; the line
  breaks are dropped and there is no empty last line. The first argument is the line
  read so far.\<close>

fun splitlines_from :: "bytes \<Rightarrow> bytes \<Rightarrow> bytes list" where
  "splitlines_from cur [] = (if cur = [] then [] else [cur])"
| "splitlines_from cur (c # cs) =
     (if c = LF then cur # splitlines_from [] cs
      else if c = CR then
        (case cs of
           [] \<Rightarrow> [cur]
         | d # ds \<Rightarrow> if d = LF then cur # splitlines_from [] ds
                     else cur # splitlines_from [] (d # ds))
      else splitlines_from (cur @ [c]) cs)"

definition splitlines :: "bytes \<Rightarrow> bytes list" where
  "splitlines s = splitlines_from [] s"

text \<open>\<^verbatim>\<open>line.split(sep, 1)\<close> for a one-byte separator: the part before the first separator
  and, when there is one, the part after it.\<close>

definition split_once :: "char \<Rightarrow> bytes \<Rightarrow> bytes \<times> bytes option" where
  "split_once sep s =
     (let a = takeWhile (\<lambda>c. c \<noteq> sep) s; b = dropWhile (\<lambda>c. c \<noteq> sep) s
      in (a, if b = [] then None else Some (tl b)))"

subsection \<open>Integer literals\<close>

text \<open>
  \<^verbatim>\<open>int(s)\<close> and \<^verbatim>\<open>int(b, 16)\<close> raise \<^verbatim>\<open>ValueError\<close> (here \<open>None\<close>) unless the text is:
  optional whitespace, an optional sign, for base 16 an optional \<^verbatim>\<open>0x\<close> or \<^verbatim>\<open>0X\<close> that one
  underscore may follow, then digits with single underscores between them, then
  optional whitespace. In base 10 a literal of more than 4300 digits is refused
  (the interpreter's default limit on integer strings).
\<close>

definition digit_val :: "char \<Rightarrow> nat option" where
  "digit_val c =
     (if 0x30 \<le> code c \<and> code c \<le> 0x39 then Some (code c - 0x30)
      else if ascii_lower c then Some (code c - 0x61 + 10)
      else if ascii_upper c then Some (code c - 0x41 + 10)
      else None)"

text \<open>The digits after the first one: \<open>acc\<close> is the value so far, \<open>u\<close> tells that the
  previous character was an underscore.\<close>

fun digits_from :: "nat \<Rightarrow> nat \<Rightarrow> bool \<Rightarrow> char list \<Rightarrow> nat option" where
  "digits_from base acc u [] = (if u then None else Some acc)"
| "digits_from base acc u (c # cs) =
     (if c = CHR ''_'' then (if u then None else digits_from base acc True cs)
      else case digit_val c of
             None \<Rightarrow> None
           | Some d \<Rightarrow> if d < base then digits_from base (acc * base + d) False cs else None)"

definition parse_digits :: "nat \<Rightarrow> char list \<Rightarrow> nat option" where
  "parse_digits base s = (if s = [] then None else digits_from base 0 True s)"

definition int_max_str_digits :: nat where
  "int_max_str_digits = 4300"

definition parse_int :: "(char \<Rightarrow> bool) \<Rightarrow> nat \<Rightarrow> char list \<Rightarrow> int option" where
  "parse_int sp base s =
     (let t = strip sp s;
          neg = startswith t ''-'';
          t1 = (if neg \<or> startswith t ''+'' then tl t else t);
          t2 = (if base = 16 \<and> (startswith t1 ''0x'' \<or> startswith t1 ''0X'')
                then (let r = drop 2 t1 in if startswith r ''_'' then tl r else r)
                else t1)
      in if base = 10 \<and> length (filter (\<lambda>c. c \<noteq> CHR ''_'') t2) > int_max_str_digits then None
         else case parse_digits base t2 of
                None \<Rightarrow> None
              | Some v \<Rightarrow> Some (if neg then - int v else int v))"

text \<open>\<^verbatim>\<open>int(s)\<close> for a \<^verbatim>\<open>str\<close> and \<^verbatim>\<open>int(b, 16)\<close> for \<^verbatim>\<open>bytes\<close>.\<close>

definition py_int :: "str \<Rightarrow> int option" where
  "py_int s = parse_int int_space 10 s"

definition py_int16 :: "bytes \<Rightarrow> int option" where
  "py_int16 b = parse_int bytes_space 16 b"

section \<open>Regular expressions of the start locator\<close>

text \<open>
  The two patterns are bytes patterns compiled with \<^verbatim>\<open>re.IGNORECASE\<close>; only
  \<^verbatim>\<open>search(buffer).start()\<close> is used. The constructs they are built from: \<^verbatim>\<open>^\<close>, a
  character class, sequence, alternation, \<^verbatim>\<open>?\<close>, and a repeated class \<^verbatim>\<open>c{lo,hi}\<close>
  (\<^verbatim>\<open>+\<close> is \<open>Rep c 1 None\<close>, \<^verbatim>\<open>*\<close> is \<open>Rep c 0 None\<close>).
\<close>

datatype rx =
    Eps
  | Bol
  | Cls "char \<Rightarrow> bool"
  | Seq rx rx
  | Alt rx rx
  | Opt rx
  | Rep "char \<Rightarrow> bool" nat "nat option"

text \<open>\<open>rep P lo hi n p s k\<close>: \<open>n\<close> characters of the class are taken already, the text
  from offset \<open>p\<close> is \<open>s\<close>, and \<open>k\<close> tells whether the rest of the pattern matches.\<close>

fun rep :: "(char \<Rightarrow> bool) \<Rightarrow> nat \<Rightarrow> nat option \<Rightarrow> nat \<Rightarrow> nat \<Rightarrow> bytes
    \<Rightarrow> (nat \<Rightarrow> bytes \<Rightarrow> bool) \<Rightarrow> bool" where
  "rep P lo hi n p [] k = (if lo \<le> n then k p [] else False)"
| "rep P lo hi n p (c # cs) k =
     (if (if lo \<le> n then k p (c # cs) else False) then True
      else if (case hi of None \<Rightarrow> P c | Some h \<Rightarrow> if n < h then P c else False)
      then rep P lo hi (n + 1) (p + 1) cs k
      else False)"

text \<open>\<open>rmatch r p s k\<close>: some way of matching \<open>r\<close> at offset \<open>p\<close> (where the text is
  \<open>s\<close>) leaves an offset and a rest that \<open>k\<close> accepts. A backtracking matcher finds a
  match at an offset exactly when there is one.\<close>

fun rmatch :: "rx \<Rightarrow> nat \<Rightarrow> bytes \<Rightarrow> (nat \<Rightarrow> bytes \<Rightarrow> bool) \<Rightarrow> bool" where
  "rmatch Eps p s k = k p s"
| "rmatch Bol p s k = (if p = 0 then k p s else False)"
| "rmatch (Cls P) p s k = (case s of [] \<Rightarrow> False | c # cs \<Rightarrow> if P c then k (p + 1) cs else False)"
| "rmatch (Seq a b) p s k = rmatch a p s (\<lambda>q t. rmatch b q t k)"
| "rmatch (Alt a b) p s k = (if rmatch a p s k then True else rmatch b p s k)"
| "rmatch (Opt a) p s k = (if rmatch a p s k then True else k p s)"
| "rmatch (Rep P lo hi) p s k = rep P lo hi 0 p s k"

text \<open>\<^verbatim>\<open>pattern.search(buffer)\<close>: the start of the leftmost match, scanning from offset \<open>p\<close>.\<close>

primrec search_from :: "rx \<Rightarrow> nat \<Rightarrow> bytes \<Rightarrow> nat option" where
  "search_from r p [] = (if rmatch r p [] (\<lambda>q t. True) then Some p else None)"
| "search_from r p (c # cs) =
     (if rmatch r p (c # cs) (\<lambda>q t. True) then Some p else search_from r (p + 1) cs)"

definition re_search :: "rx \<Rightarrow> bytes \<Rightarrow> nat option" where
  "re_search r buffer = search_from r 0 buffer"

text \<open>A literal character under \<^verbatim>\<open>IGNORECASE\<close> (bytes patterns fold ASCII letters only).\<close>

definition ascii_fold :: "char \<Rightarrow> char" where
  "ascii_fold c = (case map_of (zip ascii_capitals ascii_smalls) c of None \<Rightarrow> c | Some d \<Rightarrow> d)"

definition ichar :: "char \<Rightarrow> char \<Rightarrow> bool" where
  "ichar c b = (ascii_fold b = ascii_fold c)"

primrec lit :: "bytes \<Rightarrow> rx" where
  "lit [] = Eps"
| "lit (c # cs) = Seq (Cls (ichar c)) (lit cs)"

fun any_of :: "rx list \<Rightarrow> rx" where
  "any_of [] = Cls (\<lambda>c. False)"
| "any_of [r] = r"
| "any_of (r # rs) = Alt r (any_of rs)"

definition line_break :: "char \<Rightarrow> bool" where
  "line_break c = (c = CR \<or> c = LF)"

definition not_line_break :: "char \<Rightarrow> bool" where
  "not_line_break c = (\<not> line_break c)"

definition digit :: "char \<Rightarrow> bool" where
  "digit c = (0x30 \<le> code c \<and> code c \<le> 0x39)"

definition HTTP_METHODS :: "bytes list" where
  "HTTP_METHODS = [''GET'', ''POST'', ''PUT'', ''DELETE'', ''HEAD'', ''OPTIONS'', ''PATCH'',
     ''CONNECT'', ''TRACE'']"

text \<open>\<^verbatim>\<open>HTTP/\d(?:\.\d)?\<close>\<close>

definition http_version :: rx where
  "http_version = Seq (lit ''HTTP/'') (Seq (Cls digit) (Opt (Seq (Cls (ichar CHR ''.'')) (Cls digit))))"

text \<open>\<^verbatim>\<open>(?:^|[\r\n])(GET|...|TRACE)\s+[^\r\n]{1,2048}\s+HTTP/\d(?:\.\d)?\<close>\<close>

definition REQUEST_START_RE :: rx where
  "REQUEST_START_RE =
     Seq (Alt Bol (Cls line_break))
       (Seq (any_of (map lit HTTP_METHODS))
         (Seq (Rep bytes_space 1 None)
           (Seq (Rep not_line_break 1 (Some 2048))
             (Seq (Rep bytes_space 1 None) http_version))))"

text \<open>\<^verbatim>\<open>(?:^|[\r\n])HTTP/\d(?:\.\d)?\s+\d{3}[^\r\n]*\<close>\<close>

definition RESPONSE_START_RE :: rx where
  "RESPONSE_START_RE =
     Seq (Alt Bol (Cls line_break))
       (Seq http_version
         (Seq (Rep bytes_space 1 None)
           (Seq (Rep digit 3 (Some 3)) (Rep not_line_break 0 None))))"

section \<open>Headers\<close>

type_synonym headers = "str \<rightharpoonup> str"

text \<open>\<^verbatim>\<open>b.decode("latin-1", "replace")\<close>: every byte is the code point of the same value.\<close>

definition decode_latin1 :: "bytes \<Rightarrow> str" where
  "decode_latin1 b = b"

text \<open>The body of the loop over the header lines of \<^verbatim>\<open>parse_headers\<close>.\<close>

definition add_header_line :: "bytes \<Rightarrow> headers \<Rightarrow> headers" where
  "add_header_line line hs =
     (if strip bytes_space line = [] then hs
      else case split_once CHR '':'' line of
             (name, None) \<Rightarrow> hs
           | (name, Some v) \<Rightarrow>
               hs(lower (strip str_space (decode_latin1 name)) \<mapsto> strip str_space (decode_latin1 v)))"

definition parse_headers :: "bytes \<Rightarrow> str \<times> headers" where
  "parse_headers header_bytes =
     (case splitlines header_bytes of
        [] \<Rightarrow> ([], Map.empty)
      | l # ls \<Rightarrow> (strip str_space (decode_latin1 l), fold add_header_line ls Map.empty))"

section \<open>The chunked-body walker\<close>

datatype 'a step = Return 'a | Continue int

text \<open>One pass through the body of the loop of \<^verbatim>\<open>parse_chunked_end\<close>, entered with \<open>idx\<close>.\<close>

definition chunk_step :: "bytes \<Rightarrow> int \<Rightarrow> int option step" where
  "chunk_step buffer idx =
     (let le1 = py_find buffer CRLF idx;
          line_end = (if le1 = - 1 then py_find buffer [LF] idx else le1);
          lb = (if le1 = - 1 then 1 else 2)
      in if line_end = - 1 then Return None
         else case py_int16 (strip bytes_space (fst (split_once CHR '';'' (py_slice buffer idx line_end)))) of
                None \<Rightarrow> Return None
              | Some sz \<Rightarrow>
                  (let idx1 = line_end + lb
                   in if int (length buffer) < idx1 + sz + lb then Return None
                      else let idx2 = idx1 + sz
                           in if py_slice buffer idx2 (idx2 + 2) = CRLF then
                                (if sz = 0 then Return (Some (idx2 + 2)) else Continue (idx2 + 2))
                              else if py_slice buffer idx2 (idx2 + 1) = [LF] then
                                (if sz = 0 then Return (Some (idx2 + 1)) else Continue (idx2 + 1))
                              else Return None))"

text \<open>\<^verbatim>\<open>parse_chunked_end(buffer, start)\<close>. The outer \<open>None\<close> is a loop that never returns;
  \<open>Some None\<close> is the Python value \<^verbatim>\<open>None\<close>.\<close>

partial_function (option) parse_chunked_end :: "bytes \<Rightarrow> int \<Rightarrow> int option option" where
  "parse_chunked_end buffer idx =
     (case chunk_step buffer idx of
        Return r \<Rightarrow> Some r
      | Continue idx' \<Rightarrow> parse_chunked_end buffer idx')"

declare parse_chunked_end.simps [code]

section \<open>The start locator\<close>

text \<open>The loop that moves \<open>start\<close> over line breaks.\<close>

function skip_line_breaks :: "bytes \<Rightarrow> nat \<Rightarrow> nat" where
  "skip_line_breaks buffer start =
     (if start < length buffer \<and> (buffer ! start = LF \<or> buffer ! start = CR)
      then skip_line_breaks buffer (start + 1) else start)"
  by pat_completeness auto
termination
  by (relation "measure (\<lambda>(buffer, start). length buffer - start)") auto

text \<open>\<^verbatim>\<open>min(matches, key=lambda item: item[0])\<close> on a list that is not empty: the first
  of the items with the least key.\<close>

definition min_by_key :: "(nat \<times> 'a) \<Rightarrow> (nat \<times> 'a) list \<Rightarrow> nat \<times> 'a" where
  "min_by_key x xs = foldl (\<lambda>best item. if fst item < fst best then item else best) x xs"

definition find_next_http_start :: "bytes \<Rightarrow> (nat \<times> string) option" where
  "find_next_http_start buffer =
     (let matches =
            (case re_search REQUEST_START_RE buffer of None \<Rightarrow> [] | Some s \<Rightarrow> [(s, ''request'')]) @
            (case re_search RESPONSE_START_RE buffer of None \<Rightarrow> [] | Some s \<Rightarrow> [(s, ''response'')])
      in case matches of
           [] \<Rightarrow> None
         | m # ms \<Rightarrow> (case min_by_key m ms of (start, kind) \<Rightarrow> Some (skip_line_breaks buffer start, kind)))"

section \<open>The framer\<close>

type_synonym message = "bytes \<times> str \<times> headers"

text \<open>
  \<^verbatim>\<open>extract_http_message(buffer)\<close>. The outer \<open>None\<close> is a call that never returns (the
  chunk walk may loop), \<open>Some None\<close> is the Python value \<^verbatim>\<open>None\<close>, and otherwise the result
  is the message, the first line, the headers and the rest of the buffer.
\<close>

definition extract_http_message :: "bytes \<Rightarrow> (bytes \<times> str \<times> headers \<times> bytes) option option" where
  "extract_http_message buffer =
     (case find_next_http_start buffer of
        None \<Rightarrow> Some None
      | Some (start, kind) \<Rightarrow>
          (let he1 = py_find buffer (CRLF @ CRLF) (int start);
               header_end = (if he1 = - 1 then py_find buffer [LF, LF] (int start) else he1);
               header_sep = (if he1 = - 1 then 2 else 4)
           in if header_end = - 1 then Some None
              else case parse_headers (py_slice buffer (int start) header_end) of
                (first_line, hs) \<Rightarrow>
                  (let body_start = header_end + header_sep
                   in case hs ''content-length'' of
                        Some v \<Rightarrow>
                          (let clen = (case py_int v of None \<Rightarrow> 0 | Some n \<Rightarrow> n)
                           in if int (length buffer) < body_start + clen then Some None
                              else Some (Some (py_slice buffer (int start) (body_start + clen),
                                     first_line, hs, py_slice_from buffer (body_start + clen))))
                      | None \<Rightarrow>
                          if (case hs ''transfer-encoding'' of
                                None \<Rightarrow> False | Some te \<Rightarrow> contains (lower te) ''chunked'')
                          then (case parse_chunked_end buffer body_start of
                                  None \<Rightarrow> None
                                | Some None \<Rightarrow> Some None
                                | Some (Some chunked_end) \<Rightarrow>
                                    Some (Some (py_slice buffer (int start) chunked_end,
                                      first_line, hs, py_slice_from buffer chunked_end)))
                          else Some (Some (py_slice buffer (int start) body_start,
                                 first_line, hs, py_slice_from buffer body_start)))))"

section \<open>The message iterator\<close>

text \<open>
  \<^verbatim>\<open>iter_http_messages\<close> is a generator: at every \<^verbatim>\<open>yield\<close> the body of the \<^verbatim>\<open>for\<close> loop that
  consumes it runs, and a \<^verbatim>\<open>break\<close> there ends the generator. The loops of the generator
  therefore take the body of the consuming loop as an argument: \<open>body msg st\<close> is the
  state of the consumer after the message and tells whether the consumer broke out.

  The inner loop: messages are taken off the front of the buffer until
  \<^verbatim>\<open>extract_http_message\<close> returns \<^verbatim>\<open>None\<close>; then a buffer of more than twice the chunk size is
  cut down to its last \<^verbatim>\<open>chunk_size\<close> bytes. The result is the state of the consumer and the
  buffer that is kept, or no buffer when the consumer broke out; \<open>None\<close> is a loop that
  never ends.
\<close>

partial_function (option) extract_loop ::
    "(message \<Rightarrow> 's \<Rightarrow> 's \<times> bool) \<Rightarrow> nat \<Rightarrow> bytes \<Rightarrow> 's \<Rightarrow> ('s \<times> bytes option) option" where
  "extract_loop body chunk_size buffer st =
     (case extract_http_message buffer of
        None \<Rightarrow> None
      | Some None \<Rightarrow>
          Some (st, Some (if length buffer > chunk_size * 2
                          then py_slice_from buffer (- int chunk_size) else buffer))
      | Some (Some (message, first_line, hs, remaining)) \<Rightarrow>
          (case body (message, first_line, hs) st of
             (st', stop) \<Rightarrow>
               if stop then Some (st', None)
               else extract_loop body chunk_size remaining st'))"

declare extract_loop.simps [code]

text \<open>
  The outer loop: \<^verbatim>\<open>f.read(chunk_size)\<close> on a binary file gives the next \<^verbatim>\<open>chunk_size\<close> bytes
  (fewer at the end of the file, none after it). \<open>file\<close> is what has not been read yet.
\<close>

partial_function (option) read_loop ::
    "(message \<Rightarrow> 's \<Rightarrow> 's \<times> bool) \<Rightarrow> nat \<Rightarrow> bytes \<Rightarrow> bytes \<Rightarrow> 's \<Rightarrow> 's option" where
  "read_loop body chunk_size file buffer st =
     (let chunk = take chunk_size file
      in if chunk = [] then Some st
         else case extract_loop body chunk_size (buffer @ chunk) st of
                None \<Rightarrow> None
              | Some (st', None) \<Rightarrow> Some st'
              | Some (st', Some buffer') \<Rightarrow>
                  read_loop body chunk_size (drop chunk_size file) buffer' st')"

declare read_loop.simps [code]

text \<open>A consumer that keeps every message and never breaks out, as \<^verbatim>\<open>list(...)\<close> does.\<close>

definition collect :: "message \<Rightarrow> message list \<Rightarrow> message list \<times> bool" where
  "collect msg out = (out @ [msg], False)"

text \<open>\<^verbatim>\<open>list(iter_http_messages(file_path, chunk_size))\<close>: all that the generator yields, in
  order.\<close>

definition iter_http_messages :: "nat \<Rightarrow> bytes \<Rightarrow> message list option" where
  "iter_http_messages chunk_size file = read_loop collect chunk_size file [] []"

text \<open>The default \<^verbatim>\<open>chunk_size = 4 * 1024 * 1024\<close>.\<close>

definition default_chunk_size :: nat where
  "default_chunk_size = 4 * 1024 * 1024"

section \<open>The pairer\<close>

text \<open>
  \<^verbatim>\<open>write_http_messages_as_xml\<close> pairs the messages and hands every pair to
  \<^verbatim>\<open>write_http_item(out, request, response)\<close>. An item is the pair of arguments of one such
  call; how an item is rendered, and the issue blocks written after the items, are left
  out.
\<close>

type_synonym item = "message option \<times> message option"

record pairer =
  pending_request :: "message option"
  count_items :: int
  written :: "item list"

text \<open>\<^verbatim>\<open>bool(first_line) and any(first_line.upper().startswith(m.decode("ascii")) for m in HTTP_METHODS)\<close>\<close>

definition is_request :: "str \<Rightarrow> bool" where
  "is_request first_line =
     (first_line \<noteq> [] \<and> list_ex (\<lambda>m. startswith (upper first_line) (map code m)) HTTP_METHODS)"

text \<open>The body of the loop over the messages, up to the test of the limit.\<close>

definition pair_step :: "message \<Rightarrow> pairer \<Rightarrow> pairer" where
  "pair_step msg st =
     (if is_request (fst (snd msg)) then
        (case pending_request st of
           Some p \<Rightarrow> st\<lparr>written := written st @ [(Some p, None)],
                        count_items := count_items st + 1,
                        pending_request := Some msg\<rparr>
         | None \<Rightarrow> st\<lparr>pending_request := Some msg\<rparr>)
      else
        (case pending_request st of
           Some p \<Rightarrow> st\<lparr>written := written st @ [(Some p, Some msg)],
                        pending_request := None,
                        count_items := count_items st + 1\<rparr>
         | None \<Rightarrow> st\<lparr>written := written st @ [(None, Some msg)],
                      count_items := count_items st + 1\<rparr>))"

text \<open>\<^verbatim>\<open>limit is not None and count_items >= limit\<close>\<close>

definition limit_reached :: "int option \<Rightarrow> pairer \<Rightarrow> bool" where
  "limit_reached limit st = (case limit of None \<Rightarrow> False | Some l \<Rightarrow> count_items st \<ge> l)"

text \<open>The whole body of the loop: the step, then \<^verbatim>\<open>break\<close> when the limit is reached.\<close>

definition pair_body :: "int option \<Rightarrow> message \<Rightarrow> pairer \<Rightarrow> pairer \<times> bool" where
  "pair_body limit msg st = (let st' = pair_step msg st in (st', limit_reached limit st'))"

text \<open>The flush after the loop:
  \<^verbatim>\<open>if pending_request and (limit is None or count_items < limit)\<close>.\<close>

definition flush_pending :: "int option \<Rightarrow> pairer \<Rightarrow> pairer" where
  "flush_pending limit st =
     (case pending_request st of
        Some p \<Rightarrow>
          if (case limit of None \<Rightarrow> True | Some l \<Rightarrow> count_items st < l)
          then st\<lparr>written := written st @ [(Some p, None)], count_items := count_items st + 1\<rparr>
          else st
      | None \<Rightarrow> st)"

definition initial_pairer :: pairer where
  "initial_pairer = \<lparr>pending_request = None, count_items = 0, written = []\<rparr>"

text \<open>
  \<^verbatim>\<open>write_http_messages_as_xml(input_path, output_path, limit, issue_limit)\<close>: the items written
  for the file and the count that is returned. The iterator is called with its default
  chunk size and is consumed message by message, so that nothing is read or framed after
  the \<^verbatim>\<open>break\<close>.
\<close>

definition write_http_messages_as_xml :: "bytes \<Rightarrow> int option \<Rightarrow> (item list \<times> int) option" where
  "write_http_messages_as_xml file limit =
     (case read_loop (pair_body limit) default_chunk_size file [] initial_pairer of
        None \<Rightarrow> None
      | Some st \<Rightarrow>
          (let st' = flush_pending limit st in Some (written st', count_items st')))"

section \<open>Notions used to state the properties\<close>

text \<open>
  The first half of \<^verbatim>\<open>extract_http_message\<close> on its own, lines 240 to 253 of the source:
  the located start, \<^verbatim>\<open>body_start\<close>, the first line and the headers, or \<open>None\<close> where the
  function returns \<^verbatim>\<open>None\<close> before it looks at the body. Lemma
  \<open>extract_http_message_header_block\<close> below shows that \<open>extract_http_message\<close> is this
  followed by the choice of \<^verbatim>\<open>body_end\<close>.
\<close>

definition header_block :: "bytes \<Rightarrow> (nat \<times> int \<times> str \<times> headers) option" where
  "header_block buffer =
     (case find_next_http_start buffer of
        None \<Rightarrow> None
      | Some (start, kind) \<Rightarrow>
          (let he1 = py_find buffer (CRLF @ CRLF) (int start);
               header_end = (if he1 = - 1 then py_find buffer [LF, LF] (int start) else he1);
               header_sep = (if he1 = - 1 then 2 else 4)
           in if header_end = - 1 then None
              else case parse_headers (py_slice buffer (int start) header_end) of
                     (first_line, hs) \<Rightarrow> Some (start, header_end + header_sep, first_line, hs)))"

text \<open>The last three lines of \<^verbatim>\<open>extract_http_message\<close>: the value returned for a body end.\<close>

definition cut_message :: "bytes \<Rightarrow> nat \<Rightarrow> int \<Rightarrow> str \<Rightarrow> headers \<Rightarrow> bytes \<times> str \<times> headers \<times> bytes" where
  "cut_message buffer start body_end first_line hs =
     (py_slice buffer (int start) body_end, first_line, hs, py_slice_from buffer body_end)"

text \<open>\<^verbatim>\<open>"transfer-encoding" in headers and "chunked" in headers["transfer-encoding"].lower()\<close>\<close>

definition is_chunked :: "headers \<Rightarrow> bool" where
  "is_chunked hs =
     (case hs ''transfer-encoding'' of None \<Rightarrow> False | Some te \<Rightarrow> contains (lower te) ''chunked'')"

text \<open>
  Where a match of one of the two patterns can begin at all: at a line break that is
  followed by a first letter of the pattern, or at offset 0 on such a letter. \<open>I\<close> tells
  the first letters.
\<close>

definition candidate :: "(char \<Rightarrow> bool) \<Rightarrow> nat \<Rightarrow> bytes \<Rightarrow> bool" where
  "candidate I p s =
     (case s of
        [] \<Rightarrow> False
      | c # cs \<Rightarrow>
          if line_break c then (case cs of [] \<Rightarrow> False | d # ds \<Rightarrow> I d)
          else if p = 0 then I c else False)"

definition method_initial :: "char \<Rightarrow> bool" where
  "method_initial c = (ascii_fold c \<in> set ''cdghopt'')"

definition version_initial :: "char \<Rightarrow> bool" where
  "version_initial c = (ascii_fold c = CHR ''h'')"

definition request_at :: "nat \<Rightarrow> bytes \<Rightarrow> bool" where
  "request_at p s = rmatch REQUEST_START_RE p s (\<lambda>q t. True)"

definition response_at :: "nat \<Rightarrow> bytes \<Rightarrow> bool" where
  "response_at p s = rmatch RESPONSE_START_RE p s (\<lambda>q t. True)"




section \<open>Example captures\<close>

text \<open>Two requests without a body, as they follow each other in a capture.\<close>

definition req_a :: bytes where
  "req_a = ''GET /a HTTP/1.1'' @ CRLF @ ''Host: x'' @ CRLF @ CRLF"

definition req_b :: bytes where
  "req_b = ''GET /b HTTP/1.1'' @ CRLF @ ''Host: y'' @ CRLF @ CRLF"

text \<open>The chunked body of the specification's example, the head of a chunked response, and
  a chunked response whose only size line is a negative number.\<close>

definition wiki_body :: bytes where
  "wiki_body = ''4'' @ CRLF @ ''Wiki'' @ CRLF @ ''0'' @ CRLF @ CRLF"

definition chunked_head :: bytes where
  "chunked_head = ''HTTP/1.1 200 OK'' @ CRLF @ ''Transfer-Encoding: chunked'' @ CRLF @ CRLF"

definition negative_chunk_response :: bytes where
  "negative_chunk_response = chunked_head @ ''-6'' @ CRLF"

text \<open>The same chunked response with header lines that end with a bare line feed.\<close>

definition lf_chunked_head :: bytes where
  "lf_chunked_head = ''HTTP/1.1 200 OK'' @ [LF] @ ''Transfer-Encoding: chunked'' @ [LF, LF]"

definition lf_chunked_response :: bytes where
  "lf_chunked_response = lf_chunked_head @ wiki_body"

text \<open>A line feed, a request line and, on the next line, a status line.\<close>

definition two_starts :: bytes where
  "two_starts = [LF] @ ''GET /a HTTP/1.1'' @ CRLF @ ''HTTP/1.1 200 OK''"

text \<open>A response with a \<^verbatim>\<open>Content-Length\<close> and \<^verbatim>\<open>Transfer-Encoding: chunked\<close>; its four body
  bytes are a negative chunk size line.\<close>

definition both_headers_response :: bytes where
  "both_headers_response = ''HTTP/1.1 200 OK'' @ CRLF @ ''Content-Length: 4'' @ CRLF @
     ''Transfer-Encoding: chunked'' @ CRLF @ CRLF @ ''-6'' @ CRLF"






text \<open>A request with \<^verbatim>\<open>Content-Length: 999999\<close> and ten body bytes.\<close>

definition truncated_post :: bytes where
  "truncated_post = ''POST /u HTTP/1.1'' @ CRLF @ ''Content-Length: 999999'' @ CRLF @ CRLF @
     ''0123456789''"

section \<open>Evaluation\<close>

text \<open>The unfoldings that evaluate the header parser, the integer parser, the test for a
  request line and the pairer on concrete values.\<close>

lemmas header_eval = py_find_def slice_index_def py_slice_def py_slice_from_def parse_headers_def
  splitlines_def add_header_line_def strip_def str_space_def bytes_space_def decode_latin1_def
  split_once_def lower_def lower_char_def latin1_capitals_def latin1_smalls_def
  ascii_capitals_def ascii_smalls_def

lemmas int_eval = py_int_def py_int16_def parse_int_def parse_digits_def digit_val_def
  int_max_str_digits_def code_def ascii_upper_def ascii_lower_def int_space_def bytes_space_def
  strip_def

lemmas request_eval = is_request_def upper_def upper_char_def HTTP_METHODS_def code_def
  ascii_lower_def

lemmas pairer_eval = pair_body_def pair_step_def flush_pending_def limit_reached_def
  initial_pairer_def

lemmas chunk_eval = chunk_step_def py_find_def slice_index_def py_slice_def split_once_def

section \<open>Where a match of the two patterns can begin\<close>

lemma ascii_fold_initials:
  "ascii_fold CHR ''G'' = CHR ''g''"
  "ascii_fold CHR ''P'' = CHR ''p''"
  "ascii_fold CHR ''D'' = CHR ''d''"
  "ascii_fold CHR ''H'' = CHR ''h''"
  "ascii_fold CHR ''O'' = CHR ''o''"
  "ascii_fold CHR ''C'' = CHR ''c''"
  "ascii_fold CHR ''T'' = CHR ''t''"
  by (simp_all add: ascii_fold_def ascii_capitals_def ascii_smalls_def)

lemma ichar_initials:
  "ichar CHR ''G'' c = (ascii_fold c = CHR ''g'')"
  "ichar CHR ''P'' c = (ascii_fold c = CHR ''p'')"
  "ichar CHR ''D'' c = (ascii_fold c = CHR ''d'')"
  "ichar CHR ''H'' c = (ascii_fold c = CHR ''h'')"
  "ichar CHR ''O'' c = (ascii_fold c = CHR ''o'')"
  "ichar CHR ''C'' c = (ascii_fold c = CHR ''c'')"
  "ichar CHR ''T'' c = (ascii_fold c = CHR ''t'')"
  by (simp_all only: ichar_def ascii_fold_initials)

lemma ascii_fold_breaks: "ascii_fold CR = CR" "ascii_fold LF = LF"
  by (simp_all add: ascii_fold_def ascii_capitals_def ascii_smalls_def)

lemma initial_not_line_break:
  "method_initial c \<Longrightarrow> \<not> line_break c" "version_initial c \<Longrightarrow> \<not> line_break c"
  by (auto simp: method_initial_def version_initial_def line_break_def ascii_fold_breaks)

lemma rmatch_line_start:
  "rmatch (Seq (Alt Bol (Cls P)) r) p s k =
     ((p = 0 \<and> rmatch r p s k) \<or> (case s of [] \<Rightarrow> False | c # cs \<Rightarrow> P c \<and> rmatch r (p + 1) cs k))"
  by (cases s) auto

lemma method_first:
  assumes "rmatch (any_of (map lit HTTP_METHODS)) p s k"
  shows "\<exists>c cs. s = c # cs \<and> ascii_fold c \<in> set ''cdghopt''"
proof (cases s)
  case Nil
  with assms show ?thesis by (simp add: HTTP_METHODS_def)
next
  case (Cons c cs)
  with assms have "ichar CHR ''G'' c \<or> ichar CHR ''P'' c \<or> ichar CHR ''D'' c \<or> ichar CHR ''H'' c \<or>
      ichar CHR ''O'' c \<or> ichar CHR ''C'' c \<or> ichar CHR ''T'' c"
    by (simp add: HTTP_METHODS_def split: if_splits)
  with Cons show ?thesis by (auto simp: ichar_initials)
qed

lemma version_first:
  assumes "rmatch http_version p s k"
  shows "\<exists>c cs. s = c # cs \<and> ascii_fold c = CHR ''h''"
proof (cases s)
  case Nil
  with assms show ?thesis by (simp add: http_version_def)
next
  case (Cons c cs)
  with assms have "ichar CHR ''H'' c"
    by (simp add: http_version_def split: if_splits)
  with Cons show ?thesis by (simp add: ichar_initials)
qed

lemma line_start_candidate:
  assumes first: "\<And>q t k'. rmatch a q t k' \<Longrightarrow> \<exists>c cs. t = c # cs \<and> I c"
    and nb: "\<And>c. I c \<Longrightarrow> \<not> line_break c"
    and m: "rmatch (Seq (Alt Bol (Cls line_break)) (Seq a b)) p s k"
  shows "candidate I p s"
proof -
  from m have "(p = 0 \<and> rmatch a p s (\<lambda>q t. rmatch b q t k)) \<or>
      (case s of [] \<Rightarrow> False | c # cs \<Rightarrow> line_break c \<and> rmatch a (p + 1) cs (\<lambda>q t. rmatch b q t k))"
    unfolding rmatch_line_start by (simp only: rmatch.simps(4))
  then show ?thesis
  proof
    assume a: "p = 0 \<and> rmatch a p s (\<lambda>q t. rmatch b q t k)"
    with first obtain c cs where "s = c # cs" "I c" by blast
    with a nb[of c] show ?thesis by (simp add: candidate_def)
  next
    assume "case s of [] \<Rightarrow> False | c # cs \<Rightarrow> line_break c \<and> rmatch a (p + 1) cs (\<lambda>q t. rmatch b q t k)"
    then obtain c cs where s: "s = c # cs" and lb: "line_break c"
      and m': "rmatch a (p + 1) cs (\<lambda>q t. rmatch b q t k)"
      by (cases s) auto
    from first[OF m'] obtain d ds where "cs = d # ds" "I d" by blast
    with s lb show ?thesis by (simp add: candidate_def)
  qed
qed

lemma request_match_candidate:
  assumes "rmatch REQUEST_START_RE p s k"
  shows "candidate method_initial p s"
proof (rule line_start_candidate[OF _ _ assms[unfolded REQUEST_START_RE_def]])
  show "\<exists>c cs. t = c # cs \<and> method_initial c" if "rmatch (any_of (map lit HTTP_METHODS)) q t k'" for q t k'
    using method_first[OF that] by (simp add: method_initial_def)
  show "\<not> line_break c" if "method_initial c" for c
    using that by (rule initial_not_line_break)
qed

lemma response_match_candidate:
  assumes "rmatch RESPONSE_START_RE p s k"
  shows "candidate version_initial p s"
proof (rule line_start_candidate[OF _ _ assms[unfolded RESPONSE_START_RE_def]])
  show "\<exists>c cs. t = c # cs \<and> version_initial c" if "rmatch http_version q t k'" for q t k'
    using version_first[OF that] by (simp add: version_initial_def)
  show "\<not> line_break c" if "version_initial c" for c
    using that by (rule initial_not_line_break)
qed

text \<open>The search goes on at once from an offset where no match can begin.\<close>

lemma request_search_cons:
  "search_from REQUEST_START_RE p (c # cs) =
     (if candidate method_initial p (c # cs)
      then (if request_at p (c # cs) then Some p else search_from REQUEST_START_RE (p + 1) cs)
      else search_from REQUEST_START_RE (p + 1) cs)"
  using request_match_candidate[of p "c # cs" "\<lambda>q t. True"] by (auto simp: request_at_def)

lemma response_search_cons:
  "search_from RESPONSE_START_RE p (c # cs) =
     (if candidate version_initial p (c # cs)
      then (if response_at p (c # cs) then Some p else search_from RESPONSE_START_RE (p + 1) cs)
      else search_from RESPONSE_START_RE (p + 1) cs)"
  using response_match_candidate[of p "c # cs" "\<lambda>q t. True"] by (auto simp: response_at_def)

lemma search_nil:
  "search_from REQUEST_START_RE p [] = None" "search_from RESPONSE_START_RE p [] = None"
  using request_match_candidate[of p "[]" "\<lambda>q t. True"] response_match_candidate[of p "[]" "\<lambda>q t. True"]
  by (auto simp: candidate_def)

lemma request_at_unfold:
  "request_at p s = rmatch (Seq (Alt Bol (Cls line_break))
       (Seq (any_of (map lit HTTP_METHODS))
         (Seq (Rep bytes_space 1 None)
           (Seq (Rep not_line_break 1 (Some 2048))
             (Seq (Rep bytes_space 1 None) http_version))))) p s (\<lambda>q t. True)"
  by (simp only: request_at_def REQUEST_START_RE_def)

lemma response_at_unfold:
  "response_at p s = rmatch (Seq (Alt Bol (Cls line_break))
       (Seq http_version
         (Seq (Rep bytes_space 1 None)
           (Seq (Rep digit 3 (Some 3)) (Rep not_line_break 0 None))))) p s (\<lambda>q t. True)"
  by (simp only: response_at_def RESPONSE_START_RE_def)

declare search_from.simps [simp del]

declare skip_line_breaks.simps [simp del]

text \<open>The unfoldings that evaluate the start locator on a concrete buffer.\<close>

lemmas locator_eval = re_search_def find_next_http_start_def min_by_key_def skip_line_breaks.simps
  request_search_cons response_search_cons search_nil candidate_def method_initial_def
  version_initial_def request_at_unfold response_at_unfold HTTP_METHODS_def http_version_def
  ichar_def ascii_fold_def ascii_capitals_def ascii_smalls_def code_def line_break_def
  not_line_break_def digit_def bytes_space_def

section \<open>The framer and the iterator at the end of the input\<close>

lemma find_next_http_start_empty: "find_next_http_start [] = None"
  by (simp add: locator_eval)

lemma extract_http_message_empty: "extract_http_message [] = Some None"
  by (simp add: extract_http_message_def find_next_http_start_empty)

lemma extract_loop_empty: "extract_loop body cs [] st = Some (st, Some [])"
  by (subst extract_loop.simps) (simp add: extract_http_message_empty)

lemma read_loop_eof: "read_loop body cs [] buffer st = Some st"
  by (subst read_loop.simps) simp

text \<open>A file that fits in one read: the outer loop ends with what the inner loop gives on
  the buffer with the whole file.\<close>

lemma read_loop_one_read:
  assumes "file \<noteq> []" "length file \<le> cs" "extract_loop body cs (buffer @ file) st = Some (st', b)"
  shows "read_loop body cs file buffer st = Some st'"
  using assms by (subst read_loop.simps) (simp add: read_loop_eof split: option.splits)

lemma read_loop_one_read_loops:
  assumes "file \<noteq> []" "length file \<le> cs" "extract_loop body cs (buffer @ file) st = None"
  shows "read_loop body cs file buffer st = None"
  using assms by (subst read_loop.simps) simp

text \<open>One pass through the inner loop.\<close>

lemma extract_loop_message:
  assumes "extract_http_message buffer = Some (Some (m, first_line, hs, rest))"
    and "body (m, first_line, hs) st = (st', False)"
  shows "extract_loop body cs buffer st = extract_loop body cs rest st'"
  by (subst extract_loop.simps) (simp add: assms)

lemma extract_loop_more_data:
  assumes "extract_http_message buffer = Some None"
  shows "extract_loop body cs buffer st =
     Some (st, Some (if length buffer > cs * 2 then py_slice_from buffer (- int cs) else buffer))"
  by (subst extract_loop.simps) (simp add: assms)

section \<open>The framer as a header block followed by the choice of the body end\<close>

lemma extract_http_message_slices:
  "extract_http_message buffer =
     (case header_block buffer of
        None \<Rightarrow> Some None
      | Some (start, body_start, first_line, hs) \<Rightarrow>
          (case hs ''content-length'' of
             Some v \<Rightarrow>
               (let clen = (case py_int v of None \<Rightarrow> 0 | Some n \<Rightarrow> n)
                in if int (length buffer) < body_start + clen then Some None
                   else Some (Some (py_slice buffer (int start) (body_start + clen),
                          first_line, hs, py_slice_from buffer (body_start + clen))))
           | None \<Rightarrow>
               if (case hs ''transfer-encoding'' of
                     None \<Rightarrow> False | Some te \<Rightarrow> contains (lower te) ''chunked'')
               then (case parse_chunked_end buffer body_start of
                       None \<Rightarrow> None
                     | Some None \<Rightarrow> Some None
                     | Some (Some chunked_end) \<Rightarrow>
                         Some (Some (py_slice buffer (int start) chunked_end,
                           first_line, hs, py_slice_from buffer chunked_end)))
               else Some (Some (py_slice buffer (int start) body_start,
                      first_line, hs, py_slice_from buffer body_start))))"
proof (cases "find_next_http_start buffer")
  case None
  then show ?thesis by (simp add: extract_http_message_def header_block_def)
next
  case (Some a)
  obtain start kind where a: "a = (start, kind)" by (cases a)
  let ?he1 = "py_find buffer (CRLF @ CRLF) (int start)"
  let ?he2 = "py_find buffer [LF, LF] (int start)"
  show ?thesis
  proof (cases "?he1 = - 1")
    case True
    note he1 = this
    show ?thesis
    proof (cases "?he2 = - 1")
      case True
      with he1 Some a show ?thesis
        by (simp add: extract_http_message_def header_block_def Let_def)
    next
      case False
      obtain fl hs where ph: "parse_headers (py_slice buffer (int start) ?he2) = (fl, hs)"
        by (cases "parse_headers (py_slice buffer (int start) ?he2)")
      from he1 False Some a ph show ?thesis
        by (simp add: extract_http_message_def header_block_def Let_def)
    qed
  next
    case False
    obtain fl hs where ph: "parse_headers (py_slice buffer (int start) ?he1) = (fl, hs)"
      by (cases "parse_headers (py_slice buffer (int start) ?he1)")
    from False Some a ph show ?thesis
      by (simp add: extract_http_message_def header_block_def Let_def)
  qed
qed

lemma extract_http_message_header_block:
  "extract_http_message buffer =
     (case header_block buffer of
        None \<Rightarrow> Some None
      | Some (start, body_start, first_line, hs) \<Rightarrow>
          (case hs ''content-length'' of
             Some v \<Rightarrow>
               (let clen = (case py_int v of None \<Rightarrow> 0 | Some n \<Rightarrow> n)
                in if int (length buffer) < body_start + clen then Some None
                   else Some (Some (cut_message buffer start (body_start + clen) first_line hs)))
           | None \<Rightarrow>
               if is_chunked hs
               then (case parse_chunked_end buffer body_start of
                       None \<Rightarrow> None
                     | Some None \<Rightarrow> Some None
                     | Some (Some chunked_end) \<Rightarrow>
                         Some (Some (cut_message buffer start chunked_end first_line hs)))
               else Some (Some (cut_message buffer start body_start first_line hs))))"
  unfolding cut_message_def is_chunked_def by (rule extract_http_message_slices)

text \<open>Where \<^verbatim>\<open>bytes.find\<close> finds something from a start that is not negative, the
  occurrence lies between the start and the end of the buffer.\<close>

lemma startswith_length: "startswith s sub \<Longrightarrow> length sub \<le> length s"
  by (induction s sub rule: startswith.induct) auto

lemma find_at_bounds:
  "find_at sub s p = r \<Longrightarrow> r \<noteq> - 1 \<Longrightarrow> int p \<le> r \<and> r + int (length sub) \<le> int p + int (length s)"
proof (induction s arbitrary: p)
  case Nil
  then show ?case by (auto split: if_splits)
next
  case (Cons c cs)
  show ?case
  proof (cases "startswith (c # cs) sub")
    case True
    from startswith_length[OF True] True Cons.prems show ?thesis by simp
  next
    case False
    with Cons.prems have "find_at sub cs (Suc p) = r" by simp
    from Cons.IH[OF this Cons.prems(2)] show ?thesis by simp
  qed
qed

lemma py_find_bounds:
  assumes "py_find buffer sub start = r" "r \<noteq> - 1" "0 \<le> start"
  shows "start \<le> r \<and> r + int (length sub) \<le> int (length buffer)"
proof -
  let ?n = "int (length buffer)"
  from assms have le: "start \<le> ?n" by (auto simp: py_find_def Let_def split: if_splits)
  with assms(3) have a: "slice_index ?n start = nat start" by (simp add: slice_index_def)
  from assms le a have "find_at sub (drop (nat start) buffer) (nat start) = r"
    by (simp add: py_find_def Let_def)
  from find_at_bounds[OF this assms(2)] assms(3) le show ?thesis by simp
qed

lemma header_block_bounds:
  assumes "header_block buffer = Some (start, body_start, first_line, hs)"
  shows "int start \<le> body_start \<and> body_start \<le> int (length buffer)"
proof -
  let ?he1 = "py_find buffer (CRLF @ CRLF) (int start)"
  let ?he2 = "py_find buffer [LF, LF] (int start)"
  from assms obtain kind where k: "find_next_http_start buffer = Some (start, kind)"
    unfolding header_block_def
    by (cases "find_next_http_start buffer") (auto simp: Let_def split: prod.splits if_splits)
  show ?thesis
  proof (cases "?he1 = - 1")
    case True
    with assms k have ne: "?he2 \<noteq> - 1" and bs: "body_start = ?he2 + 2"
      unfolding header_block_def by (auto simp: Let_def split: prod.splits if_splits)
    from py_find_bounds[OF refl ne] bs show ?thesis by simp
  next
    case False
    with assms k have bs: "body_start = ?he1 + 4"
      unfolding header_block_def by (auto simp: Let_def split: prod.splits if_splits)
    from py_find_bounds[OF refl False] bs show ?thesis by simp
  qed
qed

text \<open>The header block when the first \<^verbatim>\<open>\r\n\r\n\<close> from the start on is known.\<close>

lemma header_block_crlf:
  assumes "find_next_http_start buffer = Some (start, kind)"
    and "py_find buffer (CRLF @ CRLF) (int start) = header_end"
    and "header_end \<noteq> - 1"
    and "parse_headers (py_slice buffer (int start) header_end) = (first_line, hs)"
  shows "header_block buffer = Some (start, header_end + 4, first_line, hs)"
  using assms by (simp add: header_block_def Let_def)

lemma py_slice_from_append:
  "py_slice_from (xs @ ys) (int (length xs)) = ys"
  by (simp add: py_slice_from_def slice_index_def)

lemma py_slice_prefix:
  assumes "start \<le> length xs"
  shows "py_slice (xs @ ys) (int start) (int (length xs)) = drop start xs"
  using assms by (simp add: py_slice_def slice_index_def)

section \<open>The chunk walk on concrete bodies\<close>

lemma py_int16_4: "py_int16 ''4'' = Some 4"
  by (simp add: int_eval)

lemma py_int16_0: "py_int16 ''0'' = Some 0"
  by (simp add: int_eval)

lemma py_int16_neg6: "py_int16 ''-6'' = Some (- 6)"
  by (simp add: int_eval)

lemma strip_size_lines:
  "strip bytes_space ''4'' = ''4''" "strip bytes_space ''0'' = ''0''" "strip bytes_space ''-6'' = ''-6''"
  by (simp_all add: strip_def bytes_space_def)

lemma chunk_step_negative:
  "chunk_step negative_chunk_response 47 = Continue 47"
  by (simp add: negative_chunk_response_def chunked_head_def chunk_eval strip_size_lines py_int16_neg6)

text \<open>A pass through the loop that ends where it began is repeated for ever.\<close>

lemma parse_chunked_end_fixed_point:
  assumes "chunk_step buffer idx = Continue idx"
  shows "parse_chunked_end buffer idx = None"
proof -
  have "\<not> (b = buffer \<and> i = idx)" if "parse_chunked_end b i = Some r" for b i r
  proof (rule parse_chunked_end.raw_induct[where P = "\<lambda>b i r. \<not> (b = buffer \<and> i = idx)", OF _ that])
    fix f b i y
    assume IH: "\<And>b i y. f b i = Some y \<Longrightarrow> \<not> (b = buffer \<and> i = idx)"
      and step: "(case chunk_step b i of Return r \<Rightarrow> Some r | Continue idx' \<Rightarrow> f b idx') = Some y"
    show "\<not> (b = buffer \<and> i = idx)"
    proof
      assume "b = buffer \<and> i = idx"
      with step assms have "f buffer idx = Some y" by simp
      from IH[OF this] show False by simp
    qed
  qed
  then show ?thesis by (cases "parse_chunked_end buffer idx") auto
qed

lemma wiki_step1:
  "chunk_step (pre @ wiki_body @ rest) (int (length pre)) = Continue (int (length pre) + 9)"
  by (simp add: wiki_body_def chunk_eval strip_size_lines py_int16_4 Let_def nat_add_distrib)

lemma wiki_step2:
  "chunk_step (pre @ wiki_body @ rest) (int (length pre) + 9) = Return (Some (int (length pre) + 14))"
  by (simp add: wiki_body_def chunk_eval strip_size_lines py_int16_0 Let_def nat_add_distrib)

lemma wiki_walk:
  "parse_chunked_end (pre @ wiki_body @ rest) (int (length pre)) = Some (Some (int (length pre) + 14))"
  apply (subst parse_chunked_end.simps)
  apply (simp only: wiki_step1 step.case)
  apply (subst parse_chunked_end.simps)
  apply (simp only: wiki_step2 step.case)
  done

lemma contains_chunked: "contains (lower ''chunked'') ''chunked''"
  by (simp add: lower_def lower_char_def ascii_capitals_def ascii_smalls_def latin1_capitals_def
      latin1_smalls_def)

lemma is_chunked_only: "is_chunked [''transfer-encoding'' \<mapsto> ''chunked'']"
  by (simp add: is_chunked_def contains_chunked)

section \<open>Two requests in a row\<close>

lemma find_start_req_a_req_b: "find_next_http_start (req_a @ req_b) = Some (0, ''request'')"
  by (simp add: locator_eval req_a_def req_b_def)

lemma extract_req_a_req_b:
  "extract_http_message (req_a @ req_b) =
     Some (Some (req_a, ''GET /a HTTP/1.1'', [''host'' \<mapsto> ''x''], req_b))"
  unfolding extract_http_message_def find_start_req_a_req_b
  by (simp add: req_a_def req_b_def header_eval)

lemma find_start_req_b: "find_next_http_start req_b = Some (0, ''request'')"
  by (simp add: locator_eval req_b_def)

lemma extract_req_b:
  "extract_http_message req_b = Some (Some (req_b, ''GET /b HTTP/1.1'', [''host'' \<mapsto> ''y''], []))"
  unfolding extract_http_message_def find_start_req_b
  by (simp add: req_b_def header_eval)

lemma is_request_get_a: "is_request ''GET /a HTTP/1.1''"
  by (simp add: request_eval)

lemma is_request_get_b: "is_request ''GET /b HTTP/1.1''"
  by (simp add: request_eval)

lemma pair_req_a:
  "pair_body None (req_a, ''GET /a HTTP/1.1'', [''host'' \<mapsto> ''x'']) initial_pairer =
     (\<lparr>pending_request = Some (req_a, ''GET /a HTTP/1.1'', [''host'' \<mapsto> ''x'']),
       count_items = 0, written = []\<rparr>, False)"
  by (simp add: pairer_eval is_request_get_a)

lemma pair_req_b:
  "pair_body None (req_b, ''GET /b HTTP/1.1'', [''host'' \<mapsto> ''y''])
     \<lparr>pending_request = Some (req_a, ''GET /a HTTP/1.1'', [''host'' \<mapsto> ''x'']),
       count_items = 0, written = []\<rparr> =
     (\<lparr>pending_request = Some (req_b, ''GET /b HTTP/1.1'', [''host'' \<mapsto> ''y'']),
       count_items = 1,
       written = [(Some (req_a, ''GET /a HTTP/1.1'', [''host'' \<mapsto> ''x'']), None)]\<rparr>, False)"
  by (simp add: pairer_eval is_request_get_b)

lemma pair_loop_req_a_req_b:
  "read_loop (pair_body None) default_chunk_size (req_a @ req_b) [] initial_pairer =
     Some \<lparr>pending_request = Some (req_b, ''GET /b HTTP/1.1'', [''host'' \<mapsto> ''y'']),
       count_items = 1,
       written = [(Some (req_a, ''GET /a HTTP/1.1'', [''host'' \<mapsto> ''x'']), None)]\<rparr>"
proof (rule read_loop_one_read)
  show "req_a @ req_b \<noteq> []" by (simp add: req_a_def)
  show "length (req_a @ req_b) \<le> default_chunk_size"
    by (simp add: req_a_def req_b_def default_chunk_size_def)
  show "extract_loop (pair_body None) default_chunk_size ([] @ req_a @ req_b) initial_pairer =
     Some (\<lparr>pending_request = Some (req_b, ''GET /b HTTP/1.1'', [''host'' \<mapsto> ''y'']),
       count_items = 1,
       written = [(Some (req_a, ''GET /a HTTP/1.1'', [''host'' \<mapsto> ''x'']), None)]\<rparr>, Some [])"
    unfolding append_Nil
    by (simp only: extract_loop_message[where body = "pair_body None", OF extract_req_a_req_b pair_req_a]
        extract_loop_message[where body = "pair_body None", OF extract_req_b pair_req_b]
        extract_loop_empty)
qed

text \<open>
  Claim C8. A file that holds two \<^verbatim>\<open>GET\<close> requests in a row and no response gives two
  items: the first request with no response, written when the second request arrives,
  and the second request with no response, written by the flush at the end of the input.
  The count that is returned is 2.
\<close>

theorem two_requests_two_items:
  "write_http_messages_as_xml (req_a @ req_b) None =
     Some ([(Some (req_a, ''GET /a HTTP/1.1'', [''host'' \<mapsto> ''x'']), None),
            (Some (req_b, ''GET /b HTTP/1.1'', [''host'' \<mapsto> ''y'']), None)], 2)"
  unfolding write_http_messages_as_xml_def pair_loop_req_a_req_b
  by (simp add: flush_pending_def)

section \<open>A negative chunk size\<close>

text \<open>\<^verbatim>\<open>int(size_line, 16)\<close> accepts a sign. After the size line \<^verbatim>\<open>-6\<close> the index moves back by
  six bytes, onto the line break that ends the header block, and the next pass through the
  loop starts where the previous one started.\<close>

lemma find_start_negative_chunk: "find_next_http_start negative_chunk_response = Some (0, ''response'')"
  by (simp add: locator_eval negative_chunk_response_def chunked_head_def)

lemma header_block_negative_chunk:
  "header_block negative_chunk_response =
     Some (0, 47, ''HTTP/1.1 200 OK'', [''transfer-encoding'' \<mapsto> ''chunked''])"
  unfolding header_block_def find_start_negative_chunk
  by (simp add: negative_chunk_response_def chunked_head_def header_eval)

lemma extract_negative_chunk: "extract_http_message negative_chunk_response = None"
  by (simp add: extract_http_message_header_block header_block_negative_chunk is_chunked_only
      parse_chunked_end_fixed_point[OF chunk_step_negative])

lemma extract_loop_negative_chunk: "extract_loop body cs negative_chunk_response st = None"
  by (subst extract_loop.simps) (simp add: extract_negative_chunk)

text \<open>
  Claim C10 does not hold: the chunk walk does not return on every buffer. On the response
  \<^verbatim>\<open>HTTP/1.1 200 OK\r\nTransfer-Encoding: chunked\r\n\r\n-6\r\n\<close> a pass through the loop that is
  entered with the index 47 (the body start) ends with the index 47, so the walk never
  returns, and neither do the framer and the conversion of a file with these bytes.
\<close>

theorem chunk_walk_loops_on_negative_size:
  "chunk_step negative_chunk_response 47 = Continue 47 \<and>
   parse_chunked_end negative_chunk_response 47 = None \<and>
   extract_http_message negative_chunk_response = None \<and>
   write_http_messages_as_xml negative_chunk_response None = None"
proof -
  have "read_loop (pair_body None) default_chunk_size negative_chunk_response [] initial_pairer = None"
  proof (rule read_loop_one_read_loops)
    show "negative_chunk_response \<noteq> []" by (simp add: negative_chunk_response_def chunked_head_def)
    show "length negative_chunk_response \<le> default_chunk_size"
      by (simp add: negative_chunk_response_def chunked_head_def default_chunk_size_def)
    show "extract_loop (pair_body None) default_chunk_size ([] @ negative_chunk_response) initial_pairer = None"
      unfolding append_Nil by (rule extract_loop_negative_chunk)
  qed
  then show ?thesis
    by (simp add: chunk_step_negative parse_chunked_end_fixed_point[OF chunk_step_negative]
        extract_negative_chunk write_http_messages_as_xml_def)
qed

section \<open>A chunked body is kept as it is framed\<close>

text \<open>The example of the specification: a response with \<^verbatim>\<open>Transfer-Encoding: chunked\<close> and
  header lines that end with \<^verbatim>\<open>\r\n\<close>.\<close>

lemma find_start_wiki: "find_next_http_start (chunked_head @ wiki_body) = Some (0, ''response'')"
  by (simp add: locator_eval wiki_body_def chunked_head_def)

lemma find_crlf_crlf_wiki: "py_find (chunked_head @ wiki_body) (CRLF @ CRLF) 0 = 43"
  by (simp add: wiki_body_def chunked_head_def py_find_def slice_index_def)

lemma parse_headers_wiki:
  "parse_headers (py_slice (chunked_head @ wiki_body) 0 43) =
     (''HTTP/1.1 200 OK'', [''transfer-encoding'' \<mapsto> ''chunked''])"
  by (simp add: wiki_body_def chunked_head_def header_eval)

text \<open>With header lines that end with a bare \<^verbatim>\<open>\n\<close>, the first \<^verbatim>\<open>\r\n\r\n\<close> of the buffer is
  the end of the chunked body, and it is taken for the end of the header block.\<close>

lemma find_start_lf_chunked: "find_next_http_start lf_chunked_response = Some (0, ''response'')"
  by (simp add: locator_eval lf_chunked_response_def lf_chunked_head_def wiki_body_def)

lemma header_block_lf_chunked:
  "header_block lf_chunked_response =
     Some (0, 58, ''HTTP/1.1 200 OK'', [''transfer-encoding'' \<mapsto> ''chunked''])"
  unfolding header_block_def find_start_lf_chunked
  by (simp add: lf_chunked_response_def lf_chunked_head_def wiki_body_def header_eval)

lemma chunk_step_lf_chunked: "chunk_step lf_chunked_response 58 = Return None"
  by (simp add: lf_chunked_response_def lf_chunked_head_def wiki_body_def chunk_eval)

lemma extract_lf_chunked: "extract_http_message lf_chunked_response = Some None"
proof -
  have "parse_chunked_end lf_chunked_response 58 = Some None"
    by (subst parse_chunked_end.simps) (simp add: chunk_step_lf_chunked)
  then show ?thesis
    by (simp add: extract_http_message_header_block header_block_lf_chunked is_chunked_only)
qed

text \<open>
  Claim C5, as it is stated, does not hold for every message with this body. The response
  \<^verbatim>\<open>HTTP/1.1 200 OK\nTransfer-Encoding: chunked\n\n4\r\nWiki\r\n0\r\n\r\n\<close> is framed with
  \<^verbatim>\<open>Transfer-Encoding: chunked\<close> and has the body of the claim from offset 44 on, where the
  chunk walk ends at 58, the first byte after the zero chunk. The framer looks for
  \<^verbatim>\<open>\r\n\r\n\<close> before it looks for \<^verbatim>\<open>\n\n\<close>, finds it at the end of the body, takes 58 for the
  body start and returns \<^verbatim>\<open>None\<close>: no body end is resolved and the iterator yields nothing.
\<close>

theorem lf_header_chunked_wiki_body_not_framed:
  "parse_chunked_end lf_chunked_response 44 = Some (Some 58) \<and>
   int (length lf_chunked_response) = 58 \<and>
   extract_http_message lf_chunked_response = Some None \<and>
   iter_http_messages default_chunk_size lf_chunked_response = Some []"
proof -
  have len: "int (length lf_chunked_head) = 44" by (simp add: lf_chunked_head_def)
  have "parse_chunked_end (lf_chunked_head @ wiki_body @ []) (int (length lf_chunked_head)) =
      Some (Some (int (length lf_chunked_head) + 14))"
    by (rule wiki_walk)
  then have walk: "parse_chunked_end lf_chunked_response 44 = Some (Some 58)"
    by (simp add: len lf_chunked_response_def)
  have total: "int (length lf_chunked_response) = 58"
    by (simp add: lf_chunked_response_def lf_chunked_head_def wiki_body_def)
  have "read_loop collect default_chunk_size lf_chunked_response [] [] = Some []"
  proof (rule read_loop_one_read)
    show "lf_chunked_response \<noteq> []" using total by auto
    show "length lf_chunked_response \<le> default_chunk_size"
      using total by (simp add: default_chunk_size_def)
    show "extract_loop collect default_chunk_size ([] @ lf_chunked_response) [] =
        Some ([], Some lf_chunked_response)"
      using total
      by (simp add: extract_loop_more_data[OF extract_lf_chunked] default_chunk_size_def)
  qed
  with walk total extract_lf_chunked show ?thesis by (simp add: iter_http_messages_def)
qed

text \<open>
  What holds: take a buffer in which the first \<^verbatim>\<open>\r\n\r\n\<close> from the located start on ends
  the header block, the headers parsed from that block have no \<^verbatim>\<open>content-length\<close> and a
  \<^verbatim>\<open>transfer-encoding\<close> that contains \<^verbatim>\<open>chunked\<close>, and the body \<^verbatim>\<open>4\r\nWiki\r\n0\r\n\r\n\<close>
  follows the header block. Then the chunk walk returns the offset of the first byte after
  the line break that ends the zero chunk, that is the body start plus the 14 bytes of
  the body, and the message that the framer returns is the buffer from the located start
  to that offset: it ends with the size lines and the line breaks of the chunks as they
  were, and what follows the body is left in the buffer.
\<close>

theorem chunked_wiki_body_after_crlf_header_kept_verbatim:
  assumes "find_next_http_start (pre @ wiki_body @ rest) = Some (start, kind)"
    and "4 \<le> length pre"
    and "py_find (pre @ wiki_body @ rest) (CRLF @ CRLF) (int start) = int (length pre) - 4"
    and "parse_headers (py_slice (pre @ wiki_body @ rest) (int start) (int (length pre) - 4)) =
           (first_line, hs)"
    and "hs ''content-length'' = None"
    and "is_chunked hs"
  shows "parse_chunked_end (pre @ wiki_body @ rest) (int (length pre)) =
           Some (Some (int (length pre) + int (length wiki_body))) \<and>
         extract_http_message (pre @ wiki_body @ rest) =
           Some (Some (drop start pre @ wiki_body, first_line, hs, rest))"
proof -
  have len: "int (length wiki_body) = 14" by (simp add: wiki_body_def)
  from assms(2) have ne: "int (length pre) - 4 \<noteq> - 1" by simp
  from header_block_crlf[OF assms(1) assms(3) ne assms(4)]
  have hb: "header_block (pre @ wiki_body @ rest) = Some (start, int (length pre), first_line, hs)"
    by simp
  from header_block_bounds[OF hb] have le: "start \<le> length pre" by simp
  have a: "py_slice_from (pre @ wiki_body @ rest) (int (length pre) + 14) = rest"
    using py_slice_from_append[of "pre @ wiki_body" rest] len by simp
  have b: "py_slice (pre @ wiki_body @ rest) (int start) (int (length pre) + 14) = drop start pre @ wiki_body"
    using py_slice_prefix[of start "pre @ wiki_body" rest] le len by simp
  show ?thesis
    by (simp add: extract_http_message_header_block hb assms(5,6) wiki_walk len a b cut_message_def)
qed

theorem chunked_wiki_body_after_crlf_header_kept_verbatim_witness:
  "find_next_http_start (chunked_head @ wiki_body @ []) = Some (0, ''response'') \<and>
   4 \<le> length chunked_head \<and>
   py_find (chunked_head @ wiki_body @ []) (CRLF @ CRLF) (int 0) = int (length chunked_head) - 4 \<and>
   parse_headers (py_slice (chunked_head @ wiki_body @ []) (int 0) (int (length chunked_head) - 4)) =
     (''HTTP/1.1 200 OK'', [''transfer-encoding'' \<mapsto> ''chunked'']) \<and>
   [''transfer-encoding'' \<mapsto> ''chunked''] ''content-length'' = None \<and>
   is_chunked [''transfer-encoding'' \<mapsto> ''chunked''] \<and>
   parse_chunked_end (chunked_head @ wiki_body) 47 = Some (Some 61) \<and>
   extract_http_message (chunked_head @ wiki_body) =
     Some (Some (chunked_head @ wiki_body, ''HTTP/1.1 200 OK'', [''transfer-encoding'' \<mapsto> ''chunked''], []))"
proof -
  have l1: "int (length chunked_head) = 47" by (simp add: chunked_head_def)
  have l2: "int (length wiki_body) = 14" by (simp add: wiki_body_def)
  have l3: "(47::int) + 14 = 61" "(47::int) - 4 = 43" "int 0 = 0" by simp_all
  have h1: "find_next_http_start (chunked_head @ wiki_body @ []) = Some (0, ''response'')"
    using find_start_wiki by simp
  have h2: "4 \<le> length chunked_head" using l1 by simp
  have h3: "py_find (chunked_head @ wiki_body @ []) (CRLF @ CRLF) (int 0) = int (length chunked_head) - 4"
    using find_crlf_crlf_wiki by (simp only: l1 l3 append_Nil2)
  have h4: "parse_headers (py_slice (chunked_head @ wiki_body @ []) (int 0) (int (length chunked_head) - 4)) =
     (''HTTP/1.1 200 OK'', [''transfer-encoding'' \<mapsto> ''chunked''])"
    using parse_headers_wiki by (simp only: l1 l3 append_Nil2)
  have h5: "[''transfer-encoding'' \<mapsto> ''chunked''] ''content-length'' = None" by simp
  note c = chunked_wiki_body_after_crlf_header_kept_verbatim[OF h1 h2 h3 h4 h5 is_chunked_only]
  from c have c1: "parse_chunked_end (chunked_head @ wiki_body) 47 = Some (Some 61)"
    by (simp only: l1 l2 l3 append_Nil2)
  from c have c2: "extract_http_message (chunked_head @ wiki_body) =
     Some (Some (chunked_head @ wiki_body, ''HTTP/1.1 200 OK'', [''transfer-encoding'' \<mapsto> ''chunked''], []))"
    by (simp only: append_Nil2 drop_0)
  from h1 h2 h3 h4 h5 is_chunked_only c1 c2 show ?thesis by (intro conjI)
qed

section \<open>The start locator\<close>

lemma search_from_Some:
  "search_from r p s = Some q \<Longrightarrow>
     p \<le> q \<and> q \<le> p + length s \<and> rmatch r q (drop (q - p) s) (\<lambda>q t. True)"
proof (induction s arbitrary: p)
  case Nil
  then show ?case by (simp add: search_from.simps split: if_splits)
next
  case (Cons c cs)
  show ?case
  proof (cases "rmatch r p (c # cs) (\<lambda>q t. True)")
    case True
    with Cons.prems show ?thesis by (simp add: search_from.simps)
  next
    case False
    with Cons.prems have "search_from r (p + 1) cs = Some q" by (simp add: search_from.simps)
    from Cons.IH[OF this] have "p + 1 \<le> q" "q \<le> p + 1 + length cs"
      and m: "rmatch r q (drop (q - (p + 1)) cs) (\<lambda>q t. True)" by simp_all
    moreover from \<open>p + 1 \<le> q\<close> have "q - p = Suc (q - (p + 1))" by simp
    then have "drop (q - p) (c # cs) = drop (q - (p + 1)) cs" by simp
    ultimately show ?thesis by simp
  qed
qed

lemma re_search_Some:
  assumes "re_search r buffer = Some q"
  shows "q \<le> length buffer \<and> rmatch r q (drop q buffer) (\<lambda>q t. True)"
  using search_from_Some[of r 0 buffer q] assms by (simp add: re_search_def)

text \<open>From the offset of a match the loop over the line breaks moves by at most one byte,
  onto the first letter of the request line or of the status line.\<close>

lemma candidate_start:
  assumes c: "candidate I m (drop m buffer)"
    and nb: "\<And>c. I c \<Longrightarrow> \<not> line_break c"
  shows "skip_line_breaks buffer m < length buffer \<and> I (buffer ! skip_line_breaks buffer m) \<and>
         (skip_line_breaks buffer m = 0 \<and> m = 0 \<or>
          skip_line_breaks buffer m = m + 1 \<and> line_break (buffer ! m))"
proof (cases "drop m buffer")
  case Nil
  with c show ?thesis by (simp add: candidate_def)
next
  case (Cons x xs)
  then have m: "m < length buffer" by (cases "m < length buffer") simp_all
  from Cons_nth_drop_Suc[OF m] Cons have x: "x = buffer ! m" and xs: "xs = drop (m + 1) buffer"
    by simp_all
  show ?thesis
  proof (cases "line_break x")
    case True
    with c Cons obtain d ds where ds: "xs = d # ds" and d: "I d"
      by (auto simp: candidate_def split: list.splits)
    from ds xs have m1: "m + 1 < length buffer" by (cases "m + 1 < length buffer") simp_all
    from Cons_nth_drop_Suc[OF m1] ds xs have dn: "d = buffer ! (m + 1)" by simp
    from nb[OF d] dn have "\<not> line_break (buffer ! (m + 1))" by simp
    then have "skip_line_breaks buffer (m + 1) = m + 1"
      by (subst skip_line_breaks.simps) (auto simp: line_break_def)
    moreover from True x m have "skip_line_breaks buffer m = skip_line_breaks buffer (m + 1)"
      by (subst skip_line_breaks.simps) (auto simp: line_break_def)
    ultimately show ?thesis using m1 d dn True x by simp
  next
    case False
    with c Cons have m0: "m = 0" and ix: "I x" by (auto simp: candidate_def split: if_splits)
    from False x have "skip_line_breaks buffer m = m"
      by (subst skip_line_breaks.simps) (auto simp: line_break_def)
    with m0 ix x m show ?thesis by simp
  qed
qed

lemma request_start:
  assumes "re_search REQUEST_START_RE buffer = Some m"
  shows "skip_line_breaks buffer m < length buffer \<and>
         method_initial (buffer ! skip_line_breaks buffer m) \<and>
         (skip_line_breaks buffer m = 0 \<and> m = 0 \<or>
          skip_line_breaks buffer m = m + 1 \<and> line_break (buffer ! m))"
  using re_search_Some[OF assms] request_match_candidate initial_not_line_break(1)
  by (intro candidate_start) auto

lemma response_start:
  assumes "re_search RESPONSE_START_RE buffer = Some m"
  shows "skip_line_breaks buffer m < length buffer \<and>
         version_initial (buffer ! skip_line_breaks buffer m) \<and>
         (skip_line_breaks buffer m = 0 \<and> m = 0 \<or>
          skip_line_breaks buffer m = m + 1 \<and> line_break (buffer ! m))"
  using re_search_Some[OF assms] response_match_candidate initial_not_line_break(2)
  by (intro candidate_start) auto

text \<open>What the locator returns, by what the two searches find.\<close>

lemma find_next_http_start_cases:
  "find_next_http_start buffer =
     (case re_search REQUEST_START_RE buffer of
        None \<Rightarrow>
          (case re_search RESPONSE_START_RE buffer of
             None \<Rightarrow> None
           | Some s \<Rightarrow> Some (skip_line_breaks buffer s, ''response''))
      | Some r \<Rightarrow>
          (case re_search RESPONSE_START_RE buffer of
             None \<Rightarrow> Some (skip_line_breaks buffer r, ''request'')
           | Some s \<Rightarrow> Some (skip_line_breaks buffer (min r s),
                              if r \<le> s then ''request'' else ''response'')))"
  by (auto simp: find_next_http_start_def min_by_key_def min_def split: option.splits)

lemma located_start:
  assumes "find_next_http_start buffer = Some (start, kind)"
  shows "start < length buffer \<and> \<not> line_break (buffer ! start) \<and>
         (start = 0 \<or> line_break (buffer ! (start - 1)))"
proof -
  have "\<exists>m. start = skip_line_breaks buffer m \<and>
      (re_search REQUEST_START_RE buffer = Some m \<or> re_search RESPONSE_START_RE buffer = Some m)"
    using assms unfolding find_next_http_start_cases
    by (auto simp: min_def split: option.splits if_splits)
  then obtain m where s: "start = skip_line_breaks buffer m"
    and m: "re_search REQUEST_START_RE buffer = Some m \<or> re_search RESPONSE_START_RE buffer = Some m"
    by blast
  from m show ?thesis
  proof
    assume "re_search REQUEST_START_RE buffer = Some m"
    from request_start[OF this] initial_not_line_break(1) s show ?thesis by auto
  next
    assume "re_search RESPONSE_START_RE buffer = Some m"
    from response_start[OF this] initial_not_line_break(2) s show ?thesis by auto
  qed
qed

text \<open>A line feed, a request line, and a status line on the next line: the request
  pattern matches at offset 0 and the status pattern at offset 17.\<close>

lemma re_search_two_starts:
  "re_search REQUEST_START_RE two_starts = Some 0"
  "re_search RESPONSE_START_RE two_starts = Some 17"
  by (simp_all add: locator_eval two_starts_def)

lemma skip_two_starts: "skip_line_breaks two_starts 0 = 1"
  by (simp add: two_starts_def skip_line_breaks.simps)

text \<open>
  Claim C9. When both patterns match, the locator returns the smaller of the two match
  offsets, moved over the line breaks, and calls it a request when the request match is
  not the later one, so that the request wins a tie. When only one pattern matches, its
  match is taken, and when none matches, the locator returns \<^verbatim>\<open>None\<close>. The offset that is
  returned lies in the buffer and is the first byte of a line: the byte there is no line
  break, and the offset is 0 or the byte before it is a line break.
\<close>

theorem start_locator_takes_earliest_candidate:
  "(re_search REQUEST_START_RE buffer = Some r \<and> re_search RESPONSE_START_RE buffer = Some s \<longrightarrow>
      find_next_http_start buffer =
        Some (skip_line_breaks buffer (min r s), if r \<le> s then ''request'' else ''response'')) \<and>
   (re_search REQUEST_START_RE buffer = Some r \<and> re_search RESPONSE_START_RE buffer = None \<longrightarrow>
      find_next_http_start buffer = Some (skip_line_breaks buffer r, ''request'')) \<and>
   (re_search REQUEST_START_RE buffer = None \<and> re_search RESPONSE_START_RE buffer = Some s \<longrightarrow>
      find_next_http_start buffer = Some (skip_line_breaks buffer s, ''response'')) \<and>
   (re_search REQUEST_START_RE buffer = None \<and> re_search RESPONSE_START_RE buffer = None \<longrightarrow>
      find_next_http_start buffer = None) \<and>
   (find_next_http_start buffer = Some (start, kind) \<longrightarrow>
      start < length buffer \<and> \<not> line_break (buffer ! start) \<and>
      (start = 0 \<or> line_break (buffer ! (start - 1))))"
proof (intro conjI impI)
  assume "re_search REQUEST_START_RE buffer = Some r \<and> re_search RESPONSE_START_RE buffer = Some s"
  then show "find_next_http_start buffer =
      Some (skip_line_breaks buffer (min r s), if r \<le> s then ''request'' else ''response'')"
    by (simp add: find_next_http_start_cases)
next
  assume "re_search REQUEST_START_RE buffer = Some r \<and> re_search RESPONSE_START_RE buffer = None"
  then show "find_next_http_start buffer = Some (skip_line_breaks buffer r, ''request'')"
    by (simp add: find_next_http_start_cases)
next
  assume "re_search REQUEST_START_RE buffer = None \<and> re_search RESPONSE_START_RE buffer = Some s"
  then show "find_next_http_start buffer = Some (skip_line_breaks buffer s, ''response'')"
    by (simp add: find_next_http_start_cases)
next
  assume "re_search REQUEST_START_RE buffer = None \<and> re_search RESPONSE_START_RE buffer = None"
  then show "find_next_http_start buffer = None"
    by (simp add: find_next_http_start_cases)
next
  assume a: "find_next_http_start buffer = Some (start, kind)"
  from located_start[OF a] show "start < length buffer" by simp
  from located_start[OF a] show "\<not> line_break (buffer ! start)" by simp
  from located_start[OF a] show "start = 0 \<or> line_break (buffer ! (start - 1))" by simp
qed

theorem start_locator_takes_earliest_candidate_witness:
  "re_search REQUEST_START_RE two_starts = Some 0 \<and>
   re_search RESPONSE_START_RE two_starts = Some 17 \<and>
   find_next_http_start two_starts = Some (1, ''request'') \<and>
   1 < length two_starts \<and> \<not> line_break (two_starts ! 1) \<and> line_break (two_starts ! (1 - 1))"
proof -
  note t = start_locator_takes_earliest_candidate[of two_starts 0 17 1 "''request''"]
  from t re_search_two_starts
  have f: "find_next_http_start two_starts = Some (1, ''request'')"
    by (simp add: skip_two_starts)
  from t f have "1 < length two_starts \<and> \<not> line_break (two_starts ! 1) \<and>
      (1 = (0::nat) \<or> line_break (two_starts ! (1 - 1)))"
    by blast
  with f re_search_two_starts show ?thesis by simp
qed

section \<open>The choice of the body end\<close>

lemma extract_with_content_length:
  assumes "header_block buffer = Some (start, body_start, first_line, hs)"
    and "hs ''content-length'' = Some v"
  shows "extract_http_message buffer =
     (let clen = (case py_int v of None \<Rightarrow> 0 | Some n \<Rightarrow> n)
      in if int (length buffer) < body_start + clen then Some None
         else Some (Some (cut_message buffer start (body_start + clen) first_line hs)))"
  by (simp add: extract_http_message_header_block assms)


lemma find_start_both_headers: "find_next_http_start both_headers_response = Some (0, ''response'')"
  by (simp add: locator_eval both_headers_response_def)

lemma header_block_both_headers:
  "header_block both_headers_response =
     Some (0, 66, ''HTTP/1.1 200 OK'', [''content-length'' \<mapsto> ''4'', ''transfer-encoding'' \<mapsto> ''chunked''])"
  unfolding header_block_def find_start_both_headers
  by (simp add: both_headers_response_def header_eval)

lemma py_int_4: "py_int ''4'' = Some 4"
  by (simp add: int_eval)

lemma is_chunked_both: "is_chunked [''content-length'' \<mapsto> v, ''transfer-encoding'' \<mapsto> ''chunked'']"
  by (simp add: is_chunked_def contains_chunked)

lemma chunk_step_both_headers: "chunk_step both_headers_response 66 = Continue 66"
  by (simp add: both_headers_response_def chunk_eval strip_size_lines py_int16_neg6)

lemma cut_both_headers:
  "cut_message both_headers_response 0 70 first_line hs = (both_headers_response, first_line, hs, [])"
  by (simp add: cut_message_def both_headers_response_def py_slice_def py_slice_from_def slice_index_def)

text \<open>
  Claim C4. When the headers of the header block have a \<^verbatim>\<open>content-length\<close> and a
  \<^verbatim>\<open>transfer-encoding\<close> that contains \<^verbatim>\<open>chunked\<close>, the body end is the body start plus the
  content length (0 for a value that is no number), as it is without the
  \<^verbatim>\<open>transfer-encoding\<close>: the message is cut there, or \<^verbatim>\<open>None\<close> is returned when the buffer is
  shorter. The chunk walk has no part in the result, and the call returns whether or not
  the chunk walk would.
\<close>

theorem content_length_wins_over_chunked:
  assumes "header_block buffer = Some (start, body_start, first_line, hs)"
    and "hs ''content-length'' = Some v"
    and "is_chunked hs"
  shows "extract_http_message buffer =
           (let clen = (case py_int v of None \<Rightarrow> 0 | Some n \<Rightarrow> n)
            in if int (length buffer) < body_start + clen then Some None
               else Some (Some (cut_message buffer start (body_start + clen) first_line hs))) \<and>
         extract_http_message buffer \<noteq> None"
  by (simp add: extract_with_content_length[OF assms(1,2)] Let_def)

theorem content_length_wins_over_chunked_witness:
  "header_block both_headers_response =
     Some (0, 66, ''HTTP/1.1 200 OK'', [''content-length'' \<mapsto> ''4'', ''transfer-encoding'' \<mapsto> ''chunked'']) \<and>
   [''content-length'' \<mapsto> ''4'', ''transfer-encoding'' \<mapsto> ''chunked''] ''content-length'' = Some ''4'' \<and>
   is_chunked [''content-length'' \<mapsto> ''4'', ''transfer-encoding'' \<mapsto> ''chunked''] \<and>
   parse_chunked_end both_headers_response 66 = None \<and>
   extract_http_message both_headers_response =
     Some (Some (both_headers_response, ''HTTP/1.1 200 OK'',
       [''content-length'' \<mapsto> ''4'', ''transfer-encoding'' \<mapsto> ''chunked''], []))"
proof -
  let ?hs = "[''content-length'' \<mapsto> ''4'', ''transfer-encoding'' \<mapsto> ''chunked'']"
  have h2: "?hs ''content-length'' = Some ''4''" by simp
  have len: "int (length both_headers_response) = 70" by (simp add: both_headers_response_def)
  from content_length_wins_over_chunked[OF header_block_both_headers h2 is_chunked_both]
  have "extract_http_message both_headers_response =
     Some (Some (both_headers_response, ''HTTP/1.1 200 OK'', ?hs, []))"
    by (simp add: py_int_4 len cut_both_headers)
  with header_block_both_headers h2 is_chunked_both
    parse_chunked_end_fixed_point[OF chunk_step_both_headers]
  show ?thesis by (intro conjI)
qed

section \<open>A content length that is no number\<close>









section \<open>What the iterator keeps when the framer needs more data\<close>
















section \<open>The messages are parts of the input that follow each other\<close>
























section \<open>A message that is longer than what is left of the input\<close>

text \<open>Where the buffer holds less than the header block and the content length of the
  located message, nothing is passed on; when the input has ended, the iterator ends.\<close>

lemma incomplete_body_is_dropped:
  assumes "header_block buffer = Some (start, body_start, first_line, hs)"
    and "hs ''content-length'' = Some v"
    and "py_int v = Some n"
    and "int (length buffer) < body_start + n"
  shows "extract_http_message buffer = Some None"
    and "extract_loop body cs buffer st =
      Some (st, Some (if length buffer > cs * 2 then py_slice_from buffer (- int cs) else buffer))"
proof -
  from assms show e: "extract_http_message buffer = Some None"
    by (simp add: extract_with_content_length[OF assms(1,2)])
  show "extract_loop body cs buffer st =
      Some (st, Some (if length buffer > cs * 2 then py_slice_from buffer (- int cs) else buffer))"
    by (rule extract_loop_more_data[OF e])
qed

lemma find_start_truncated_post: "find_next_http_start truncated_post = Some (0, ''request'')"
  by (simp add: locator_eval truncated_post_def)

lemma header_block_truncated_post:
  "header_block truncated_post =
     Some (0, 44, ''POST /u HTTP/1.1'', [''content-length'' \<mapsto> ''999999''])"
  unfolding header_block_def find_start_truncated_post
  by (simp add: truncated_post_def header_eval)

lemma py_int_999999: "py_int ''999999'' = Some 999999"
  by (simp add: int_eval)

lemma iter_truncated_post: "iter_http_messages default_chunk_size truncated_post = Some []"
proof -
  have len: "length truncated_post = 54" by (simp add: truncated_post_def)
  have ne: "truncated_post \<noteq> []" using len by auto
  have le: "length truncated_post \<le> default_chunk_size" by (simp add: len default_chunk_size_def)
  have cl: "[''content-length'' \<mapsto> ''999999''] ''content-length'' = Some ''999999''" by simp
  have short: "int (length truncated_post) < 44 + 999999" by (simp add: len)
  have "extract_loop collect default_chunk_size truncated_post [] =
      Some ([], Some (if length truncated_post > default_chunk_size * 2
        then py_slice_from truncated_post (- int default_chunk_size) else truncated_post))"
    by (rule incomplete_body_is_dropped(2)[OF header_block_truncated_post cl py_int_999999 short])
  then have "extract_loop collect default_chunk_size ([] @ truncated_post) [] =
      Some ([], Some truncated_post)"
    by (simp add: len default_chunk_size_def)
  from read_loop_one_read[OF ne le this] show ?thesis
    by (simp add: iter_http_messages_def)
qed

text \<open>The same request after the chunked response with the negative size line.\<close>

lemma find_start_hang_then_post:
  "find_next_http_start (negative_chunk_response @ truncated_post) = Some (0, ''response'')"
  by (simp add: locator_eval negative_chunk_response_def chunked_head_def truncated_post_def)

lemma header_block_hang_then_post:
  "header_block (negative_chunk_response @ truncated_post) =
     Some (0, 47, ''HTTP/1.1 200 OK'', [''transfer-encoding'' \<mapsto> ''chunked''])"
  unfolding header_block_def find_start_hang_then_post
  by (simp add: negative_chunk_response_def chunked_head_def truncated_post_def header_eval)

lemma chunk_step_hang_then_post:
  "chunk_step (negative_chunk_response @ truncated_post) 47 = Continue 47"
  by (simp add: negative_chunk_response_def chunked_head_def truncated_post_def chunk_eval
      strip_size_lines py_int16_neg6)

lemma extract_hang_then_post:
  "extract_http_message (negative_chunk_response @ truncated_post) = None"
  by (simp add: extract_http_message_header_block header_block_hang_then_post is_chunked_only
      parse_chunked_end_fixed_point[OF chunk_step_hang_then_post])

lemma read_loop_hang_then_post:
  "read_loop body default_chunk_size (negative_chunk_response @ truncated_post) [] st = None"
proof (rule read_loop_one_read_loops)
  have len: "length (negative_chunk_response @ truncated_post) = 105"
    by (simp add: negative_chunk_response_def chunked_head_def truncated_post_def)
  show "negative_chunk_response @ truncated_post \<noteq> []" using len by auto
  show "length (negative_chunk_response @ truncated_post) \<le> default_chunk_size"
    unfolding len by (simp add: default_chunk_size_def)
  show "extract_loop body default_chunk_size ([] @ negative_chunk_response @ truncated_post) st = None"
    unfolding append_Nil by (subst extract_loop.simps) (simp add: extract_hang_then_post)
qed

text \<open>
  Claim C6 does not hold for every input that contains such a request. The request
  \<^verbatim>\<open>POST /u HTTP/1.1\r\nContent-Length: 999999\r\n\r\n0123456789\<close> alone is never yielded and
  the iterator ends. After the 51 bytes of the chunked response with the size line
  \<^verbatim>\<open>-6\<close> the request is not yielded either, but the iterator does not end: the chunk walk
  of the response never returns (the defect of claim C10), so neither the iterator nor
  the conversion of the file returns.
\<close>

theorem iteration_does_not_end_after_negative_chunk_size:
  "iter_http_messages default_chunk_size truncated_post = Some [] \<and>
   iter_http_messages default_chunk_size (negative_chunk_response @ truncated_post) = None \<and>
   write_http_messages_as_xml (negative_chunk_response @ truncated_post) None = None"
proof (intro conjI)
  show "iter_http_messages default_chunk_size truncated_post = Some []"
    by (rule iter_truncated_post)
  show "iter_http_messages default_chunk_size (negative_chunk_response @ truncated_post) = None"
    unfolding iter_http_messages_def by (rule read_loop_hang_then_post)
  show "write_http_messages_as_xml (negative_chunk_response @ truncated_post) None = None"
    unfolding write_http_messages_as_xml_def by (simp add: read_loop_hang_then_post)
qed

end
